theory Spec2Isabelle
  imports Main "HOL-Library.AList" "HOL-Library.Char_ord" "HOL-Library.List_Lexorder"
begin

section \<open>Schedule builder: the embedding of \<^verbatim>\<open>schedule_builder.py\<close>\<close>

text \<open>
  Strings are \<open>char list\<close>, each \<open>char\<close> standing for one code point below 256, so that
  the lexicographic order of \<open>HOL-Library.List_Lexorder\<close> over the code-point order of
  \<open>HOL-Library.Char_ord\<close> is Python's comparison of \<open>str\<close> values and of tuples of them.
  Python's unbounded \<open>int\<close> is \<open>int\<close>. A raised exception is the left injection of a sum.
  A Python dict is an association list in insertion order: \<open>AList.update\<close> overwrites a
  present key in place and appends an absent one, as assignment to a dict entry does.
  Arguments are taken by value: every call is assumed to pass dict and list objects that
  nothing else holds.
\<close>

datatype py_error = ValueError | OverflowError

subsection \<open>Text primitives\<close>

definition is_space :: "char \<Rightarrow> bool" where
  \<comment> \<open>\<open>str.isspace\<close> on the code points below 256\<close>
  "is_space c = (let n = (of_char c :: nat) in
     (9 \<le> n \<and> n \<le> 13) \<or> (28 \<le> n \<and> n \<le> 32) \<or> n = 133 \<or> n = 160)"

definition strip :: "string \<Rightarrow> string" where
  "strip s = rev (dropWhile is_space (rev (dropWhile is_space s)))"

definition is_digit :: "char \<Rightarrow> bool" where
  "is_digit c = (48 \<le> (of_char c :: nat) \<and> (of_char c :: nat) \<le> 57)"

definition digit_val :: "char \<Rightarrow> int" where
  "digit_val c = int (of_char c) - 48"

fun digits_ok :: "string \<Rightarrow> bool" where
  \<comment> \<open>digits, with single underscores allowed between two digits\<close>
  "digits_ok [] = False"
| "digits_ok [c] = is_digit c"
| "digits_ok (c # d # cs) =
     (is_digit c \<and> (if d = CHR ''_'' then cs \<noteq> [] \<and> digits_ok cs else digits_ok (d # cs)))"

definition digits_value :: "string \<Rightarrow> int" where
  "digits_value s = foldl (\<lambda>acc c. 10 * acc + digit_val c) 0 (filter is_digit s)"

definition is_int_space :: "char \<Rightarrow> bool" where
  \<comment> \<open>the whitespace that \<open>int\<close> skips around a number: unlike \<open>str.strip\<close> it rejects
      the separators U+001C to U+001F\<close>
  "is_int_space c = (let n = (of_char c :: nat) in
     (9 \<le> n \<and> n \<le> 13) \<or> n = 32 \<or> n = 133 \<or> n = 160)"

definition py_int :: "string \<Rightarrow> py_error + int" where
  \<comment> \<open>\<open>int(s)\<close> in base 10: surrounding whitespace, an optional sign, digits.
      The interpreter's configurable limit on the number of digits is left out.\<close>
  "py_int s =
     (case rev (dropWhile is_int_space (rev (dropWhile is_int_space s))) of
        [] \<Rightarrow> Inl ValueError
      | c # cs \<Rightarrow>
          if c = CHR ''+'' then (if digits_ok cs then Inr (digits_value cs) else Inl ValueError)
          else if c = CHR ''-'' then (if digits_ok cs then Inr (- digits_value cs) else Inl ValueError)
          else if digits_ok (c # cs) then Inr (digits_value (c # cs)) else Inl ValueError)"

definition two_digits :: "int \<Rightarrow> string" where
  \<comment> \<open>the zero-padded two-digit field of \<open>strftime\<close>, for a value in 0..99\<close>
  "two_digits n = [''0123456789'' ! nat (n div 10), ''0123456789'' ! nat (n mod 10)]"

subsection \<open>Instants\<close>

text \<open>
  A \<open>datetime\<close> of the source always has zero seconds, so an instant is the number of
  minutes since 2000-01-01 00:00. \<open>datetime\<close> covers the years 1 to 9999: the ordinal of
  2000-01-01 is 730120 and that of 9999-12-31 is 3652059.
\<close>

definition dt_min :: int where
  "dt_min = - (730119 * 1440)"

definition dt_max :: int where
  "dt_max = 2921939 * 1440 + 1439"

definition fits_c_int :: "int \<Rightarrow> bool" where
  "fits_c_int n = (- 2147483648 \<le> n \<and> n \<le> 2147483647)"

definition datetime_2000_1_1 :: "int \<Rightarrow> int \<Rightarrow> py_error + int" where
  \<comment> \<open>\<open>datetime(2000, 1, 1, hour, minute)\<close>: the arguments are converted to C integers
      first, then checked against the clock\<close>
  "datetime_2000_1_1 hour minute =
     (if \<not> fits_c_int hour \<or> \<not> fits_c_int minute then Inl OverflowError
      else if 0 \<le> hour \<and> hour \<le> 23 \<and> 0 \<le> minute \<and> minute \<le> 59
      then Inr (hour * 60 + minute) else Inl ValueError)"

definition timedelta_minutes :: "int \<Rightarrow> py_error + int" where
  \<comment> \<open>\<open>timedelta(minutes=n)\<close>: its normalised day count is \<open>n div 1440\<close>\<close>
  "timedelta_minutes n =
     (if - 999999999 \<le> n div 1440 \<and> n div 1440 \<le> 999999999 then Inr n else Inl OverflowError)"

definition dt_add :: "int \<Rightarrow> int \<Rightarrow> py_error + int" where
  \<comment> \<open>\<open>datetime + timedelta\<close>\<close>
  "dt_add t d = (if dt_min \<le> t + d \<and> t + d \<le> dt_max then Inr (t + d) else Inl OverflowError)"

definition strftime_HM :: "int \<Rightarrow> string" where
  \<comment> \<open>\<open>strftime("%H%M")\<close>\<close>
  "strftime_HM t = two_digits ((t mod 1440) div 60) @ two_digits (t mod 60)"

subsection \<open>\<open>generate_time_slots\<close>\<close>

definition parse_bounds :: "string \<Rightarrow> string \<Rightarrow> py_error + int \<times> int" where
  \<comment> \<open>lines 28 to 44: the start instant and the end instant after the day rollover\<close>
  "parse_bounds start_time end_time =
     (case py_int (take 2 start_time) of Inl e \<Rightarrow> Inl e | Inr start_hour \<Rightarrow>
      case py_int (drop 2 start_time) of Inl e \<Rightarrow> Inl e | Inr start_min \<Rightarrow>
      case (if end_time = ''2400'' then Inr (23, 59)
            else case py_int (take 2 end_time) of Inl e \<Rightarrow> Inl e | Inr end_hour \<Rightarrow>
                 case py_int (drop 2 end_time) of Inl e \<Rightarrow> Inl e | Inr end_min \<Rightarrow>
                 Inr (end_hour, end_min))
      of Inl e \<Rightarrow> Inl e | Inr (end_hour, end_min) \<Rightarrow>
      case datetime_2000_1_1 start_hour start_min of Inl e \<Rightarrow> Inl e | Inr start_dt \<Rightarrow>
      case datetime_2000_1_1 end_hour end_min of Inl e \<Rightarrow> Inl e | Inr end_dt \<Rightarrow>
      Inr (start_dt,
           if end_dt \<le> start_dt \<or> end_time = ''2400'' then end_dt + 1440 else end_dt))"

definition slot_label :: "int \<Rightarrow> int \<Rightarrow> string" where
  \<comment> \<open>lines 49 to 52\<close>
  "slot_label start_dt current =
     (if strftime_HM current = ''0000'' \<and> current > start_dt then ''2400''
      else strftime_HM current)"

definition advance :: "int \<Rightarrow> int \<Rightarrow> py_error + int" where
  \<comment> \<open>line 54: \<open>current += timedelta(minutes=interval_minutes)\<close>\<close>
  "advance current interval_minutes =
     (case timedelta_minutes interval_minutes of Inl e \<Rightarrow> Inl e | Inr d \<Rightarrow> dt_add current d)"

partial_function (option) slots_loop ::
  "int \<Rightarrow> int \<Rightarrow> int \<Rightarrow> int \<Rightarrow> string list \<Rightarrow> (py_error + string list) option" where
  "slots_loop start_dt end_dt interval_minutes current slots =
     (if current \<le> end_dt then
        (case advance current interval_minutes of
           Inl e \<Rightarrow> Some (Inl e)
         | Inr next \<Rightarrow>
             slots_loop start_dt end_dt interval_minutes next
               (slots @ [slot_label start_dt current]))
      else Some (Inr slots))"

declare slots_loop.simps [code]

definition generate_time_slots ::
  "string \<Rightarrow> string \<Rightarrow> int \<Rightarrow> (py_error + string list) option" where
  \<comment> \<open>\<open>None\<close>: the call does not return\<close>
  "generate_time_slots start_time end_time interval_minutes =
     (case parse_bounds start_time end_time of
        Inl e \<Rightarrow> Some (Inl e)
      | Inr (start_dt, end_dt) \<Rightarrow> slots_loop start_dt end_dt interval_minutes start_dt [])"

subsection \<open>\<open>parse_hierarchy\<close>\<close>

fun contains :: "string \<Rightarrow> string \<Rightarrow> bool" where
  \<comment> \<open>\<open>sep in s\<close>\<close>
  "contains sep [] = (sep = [])"
| "contains sep (c # cs) = (take (length sep) (c # cs) = sep \<or> contains sep cs)"

function split_from :: "string \<Rightarrow> string \<Rightarrow> string \<Rightarrow> string list" where
  \<comment> \<open>\<open>s.split(sep)\<close> for a non-empty \<open>sep\<close>, scanning from the left; \<open>cur\<close> is the part
      read so far\<close>
  "split_from sep cur [] = [cur]"
| "split_from sep cur (c # cs) =
     (if sep \<noteq> [] \<and> take (length sep) (c # cs) = sep
      then cur # split_from sep [] (drop (length sep) (c # cs))
      else split_from sep (cur @ [c]) cs)"
  by pat_completeness auto
termination
  by (relation "measure (\<lambda>(sep, cur, s). length s)") (auto simp: neq_Nil_conv)

definition split :: "string \<Rightarrow> string \<Rightarrow> string list" where
  "split sep s = split_from sep [] s"

definition parse_hierarchy :: "string \<Rightarrow> string list \<times> string" where
  "parse_hierarchy group_name =
     (if contains '' - '' group_name
      then (let parts = map strip (split '' - '' group_name) in (butlast parts, last parts))
      else ([], group_name))"

subsection \<open>The builder and its store\<close>

record group =
  hierarchy :: "string list"
  leaf_name :: string
  activities :: "(string \<times> string) list"
  locations :: "string list"

record builder =
  time_slots :: "string list"
  groups :: "(string \<times> group) list"
  schedule_data :: "string list list"

definition init :: builder where
  "init = \<lparr>time_slots = [], groups = [], schedule_data = []\<rparr>"

definition add_group ::
  "string \<Rightarrow> (string \<times> string) list option \<Rightarrow> string list option \<Rightarrow> builder \<Rightarrow> builder" where
  \<comment> \<open>\<open>activities or {}\<close> and \<open>locations or []\<close> give the empty value for \<open>None\<close> and for an
      empty argument\<close>
  "add_group group_name acts locs b =
     (case parse_hierarchy group_name of (hier, leaf) \<Rightarrow>
        if map_of (groups b) group_name = None
        then b\<lparr>groups := AList.update group_name
                 \<lparr>hierarchy = hier, leaf_name = leaf,
                  activities = (case acts of None \<Rightarrow> [] | Some a \<Rightarrow> a),
                  locations = (case locs of None \<Rightarrow> [] | Some l \<Rightarrow> l)\<rparr> (groups b)\<rparr>
        else b)"

definition set_time_period :: "string \<Rightarrow> string \<Rightarrow> int \<Rightarrow> builder \<Rightarrow> (py_error + builder) option" where
  "set_time_period start_time end_time interval_minutes b =
     (case generate_time_slots start_time end_time interval_minutes of
        None \<Rightarrow> None
      | Some (Inl e) \<Rightarrow> Some (Inl e)
      | Some (Inr slots) \<Rightarrow> Some (Inr (b\<lparr>time_slots := slots\<rparr>)))"

definition add_activity :: "string \<Rightarrow> string \<Rightarrow> string \<Rightarrow> string \<Rightarrow> builder \<Rightarrow> builder" where
  \<comment> \<open>after the first step the group is present, so the lookups of lines 88 to 90 succeed\<close>
  "add_activity group_name time_slot activity location b =
     (let b1 = (if map_of (groups b) group_name = None then add_group group_name None None b else b)
      in case map_of (groups b1) group_name of
           None \<Rightarrow> b1
         | Some g \<Rightarrow>
             (let g1 = g\<lparr>activities := AList.update time_slot activity (activities g)\<rparr>;
                  g2 = (if location \<noteq> [] \<and> location \<notin> set (locations g1)
                        then g1\<lparr>locations := locations g1 @ [location]\<rparr> else g1)
              in b1\<lparr>groups := AList.update group_name g2 (groups b1)\<rparr>))"

subsection \<open>\<open>build_schedule_structure\<close>\<close>

definition group_key :: "string \<times> group \<Rightarrow> string list" where
  \<comment> \<open>lines 106 to 114\<close>
  "group_key item =
     (case item of (group_name, group_data) \<Rightarrow>
        if hierarchy group_data = [] then [group_name]
        else hierarchy group_data @ [leaf_name group_data])"

definition hierarchy_groups :: "builder \<Rightarrow> (string list \<times> group) list" where
  \<comment> \<open>lines 104 to 116: a later group with the same key replaces the earlier one's data\<close>
  "hierarchy_groups b =
     foldl (\<lambda>hg item. AList.update (group_key item) (snd item) hg) [] (groups b)"

definition sorted_groups :: "builder \<Rightarrow> (string list \<times> group) list" where
  \<comment> \<open>line 119; the keys of a dict are distinct, so the values are never compared\<close>
  "sorted_groups b = sort_key fst (hierarchy_groups b)"

fun join :: "string \<Rightarrow> string list \<Rightarrow> string" where
  "join sep [] = []"
| "join sep [x] = x"
| "join sep (x # y # ys) = x @ sep @ join sep (y # ys)"

definition row_prefix ::
  "string list \<Rightarrow> string \<Rightarrow> string option \<Rightarrow> string option
     \<Rightarrow> string list \<times> string option \<times> string option" where
  \<comment> \<open>lines 131 to 151: the three leading cells and the new \<open>current_top_level\<close> and
      \<open>current_second_level\<close>\<close>
  "row_prefix group_key_v leaf current_top_level current_second_level =
     (if length group_key_v = 1 then
        ([group_key_v ! 0, [], []], Some (group_key_v ! 0), None)
      else if length group_key_v = 2 then
        ([if Some (group_key_v ! 0) \<noteq> current_top_level then group_key_v ! 0 else [],
          group_key_v ! 1, []],
         Some (group_key_v ! 0), Some (group_key_v ! 1))
      else if length group_key_v = 3 then
        ([if Some (group_key_v ! 0) \<noteq> current_top_level then group_key_v ! 0 else [],
          if Some (group_key_v ! 1) \<noteq> current_second_level then group_key_v ! 1 else [],
          group_key_v ! 2],
         Some (group_key_v ! 0), Some (group_key_v ! 1))
      else ([[], [], leaf], current_top_level, current_second_level))"

definition add_locations :: "string list \<Rightarrow> string list \<Rightarrow> string list" where
  \<comment> \<open>lines 154 to 158, on a row of three cells\<close>
  "add_locations locs row =
     (if locs \<noteq> [] then
        (if row ! 2 \<noteq> [] then row[2 := row ! 2 @ '' ('' @ join '', '' locs @ '')'']
         else row[2 := ''('' @ join '', '' locs @ '')''])
      else row)"

definition activity_cells :: "(string \<times> string) list \<Rightarrow> string list \<Rightarrow> string list" where
  \<comment> \<open>lines 161 to 163\<close>
  "activity_cells acts slots =
     map (\<lambda>time_slot. case map_of acts time_slot of None \<Rightarrow> [] | Some a \<Rightarrow> a) slots"

fun build_rows ::
  "string list \<Rightarrow> string option \<Rightarrow> string option \<Rightarrow> (string list \<times> group) list
     \<Rightarrow> string list list" where
  \<comment> \<open>the loop of lines 124 to 165\<close>
  "build_rows slots ct cs [] = []"
| "build_rows slots ct cs ((group_key_v, group_data) # rest) =
     (case row_prefix group_key_v (leaf_name group_data) ct cs of
        (row, ct', cs') \<Rightarrow>
          (add_locations (locations group_data) row
             @ activity_cells (activities group_data) slots)
          # build_rows slots ct' cs' rest)"

definition build_schedule_structure :: "builder \<Rightarrow> builder \<times> (py_error + string list list)" where
  \<comment> \<open>the builder as the call leaves it, and what the call raises or returns\<close>
  "build_schedule_structure b =
     (if time_slots b = [] then (b, Inl ValueError)
      else (b, Inr (([[], [], []] @ time_slots b)
                    # ([[], [], []] @ replicate (length (time_slots b)) [])
                    # build_rows (time_slots b) None None (sorted_groups b))))"

subsection \<open>Reachable builders\<close>


inductive reachable :: "builder \<Rightarrow> bool" where
  \<comment> \<open>the builders that calls of the three mutating methods produce from a new one\<close>
  r_init: "reachable init"
| r_add_group: "reachable b \<Longrightarrow> reachable (add_group group_name acts locs b)"
| r_add_activity:
    "reachable b \<Longrightarrow> reachable (add_activity group_name time_slot activity location b)"
| r_set_time_period:
    "reachable b \<Longrightarrow> set_time_period start_time end_time interval_minutes b = Some (Inr b')
       \<Longrightarrow> reachable b'"


subsection \<open>Example builders\<close>

definition axis_builder :: builder where
  \<comment> \<open>a new builder after \<open>set_time_period("0530", "0600", 30)\<close>\<close>
  "axis_builder = init\<lparr>time_slots := [''0530'', ''0600'']\<rparr>"


definition three_groups :: builder where
  "three_groups =
     add_group ''E - F - G'' None None
       (add_activity ''A - B - D'' ''0600'' ''Lunch'' ''Tent''
          (add_group ''A - B - C'' None None axis_builder))"

definition deep_third :: builder where
  \<comment> \<open>as \<open>three_groups\<close>, the third group four levels deep\<close>
  "deep_third =
     add_group ''E - F - G - H'' None None
       (add_group ''A - B - D'' None None
          (add_group ''A - B - C'' None None axis_builder))"

section \<open>The time axis\<close>

subsection \<open>The emission loop\<close>

lemma advance_Inr: "advance cur iv = Inr nxt \<Longrightarrow> nxt = cur + iv \<and> dt_min \<le> nxt \<and> nxt \<le> dt_max"
  by (auto simp: advance_def timedelta_minutes_def dt_add_def split: if_splits sum.splits)

lemma advance_Inl: "advance cur iv = Inl e \<Longrightarrow> e = OverflowError"
  by (auto simp: advance_def timedelta_minutes_def dt_add_def split: if_splits sum.splits)

lemma advance_zero: "dt_min \<le> cur \<Longrightarrow> cur \<le> dt_max \<Longrightarrow> advance cur 0 = Inr cur"
  by (simp add: advance_def timedelta_minutes_def dt_add_def)

lemma upt_0_Suc_map: "map f [0..<Suc n] = f 0 # map (\<lambda>i. f (Suc i)) [0..<n]"
  by (simp only: upt_conv_Cons[OF zero_less_Suc] list.map map_Suc_upt[symmetric] map_map comp_def)

lemma slots_loop_result:
  assumes "slots_loop sd ed iv cur acc = Some r"
  shows "\<forall>slots. r = Inr slots \<longrightarrow>
           (\<exists>n. slots = acc @ map (\<lambda>i. slot_label sd (cur + int i * iv)) [0..<n]
                \<and> (cur \<le> ed \<longrightarrow> 0 < n))"
proof (rule slots_loop.raw_induct
    [where P = "\<lambda>sd ed iv cur acc r. \<forall>slots. r = Inr slots \<longrightarrow>
           (\<exists>n. slots = acc @ map (\<lambda>i. slot_label sd (cur + int i * iv)) [0..<n]
                \<and> (cur \<le> ed \<longrightarrow> 0 < n))", OF _ assms])
  fix f sd ed iv cur acc r
  assume IH: "\<And>sd ed iv cur acc r. f sd ed iv cur acc = Some r \<Longrightarrow>
      \<forall>slots. r = Inr slots \<longrightarrow>
           (\<exists>n. slots = acc @ map (\<lambda>i. slot_label sd (cur + int i * iv)) [0..<n]
                \<and> (cur \<le> ed \<longrightarrow> 0 < n))"
    and body: "(if cur \<le> ed
      then case advance cur iv of Inl e \<Rightarrow> Some (Inl e)
           | Inr nxt \<Rightarrow> f sd ed iv nxt (acc @ [slot_label sd cur])
      else Some (Inr acc)) = Some r"
  show "\<forall>slots. r = Inr slots \<longrightarrow>
           (\<exists>n. slots = acc @ map (\<lambda>i. slot_label sd (cur + int i * iv)) [0..<n]
                \<and> (cur \<le> ed \<longrightarrow> 0 < n))"
  proof (cases "cur \<le> ed")
    case False
    with body have "r = Inr acc" by simp
    then show ?thesis using False by auto
  next
    case True
    show ?thesis
    proof (cases "advance cur iv")
      case (Inl e)
      with True body show ?thesis by auto
    next
      case (Inr nxt)
      with True body have call: "f sd ed iv nxt (acc @ [slot_label sd cur]) = Some r" by simp
      have nxt: "nxt = cur + iv" using advance_Inr[OF Inr] by simp
      show ?thesis
      proof (intro allI impI)
        fix slots assume "r = Inr slots"
        with IH[OF call] obtain n where
          n: "slots = (acc @ [slot_label sd cur]) @ map (\<lambda>i. slot_label sd (nxt + int i * iv)) [0..<n]"
          by blast
        have "slots = acc @ map (\<lambda>i. slot_label sd (cur + int i * iv)) [0..<Suc n]"
          unfolding upt_0_Suc_map n nxt by (simp add: algebra_simps)
        then show "\<exists>n. slots = acc @ map (\<lambda>i. slot_label sd (cur + int i * iv)) [0..<n]
                \<and> (cur \<le> ed \<longrightarrow> 0 < n)" by blast
      qed
    qed
  qed
qed

lemma slots_loop_terminates:
  assumes "1 \<le> iv"
  shows "\<exists>r. slots_loop sd ed iv cur acc = Some r"
proof (induction "nat (ed + 1 - cur)" arbitrary: cur acc rule: less_induct)
  case less
  show ?case
  proof (cases "cur \<le> ed")
    case False
    then show ?thesis by (subst slots_loop.simps) simp
  next
    case True
    show ?thesis
    proof (cases "advance cur iv")
      case (Inl e)
      then show ?thesis using True by (subst slots_loop.simps) simp
    next
      case (Inr nxt)
      then have "nxt = cur + iv" using advance_Inr by blast
      with assms True have "nat (ed + 1 - nxt) < nat (ed + 1 - cur)" by simp
      from less[OF this] obtain r where
        "slots_loop sd ed iv nxt (acc @ [slot_label sd cur]) = Some r" by blast
      then show ?thesis using True Inr by (subst slots_loop.simps) simp
    qed
  qed
qed

lemma slots_loop_negative:
  assumes "iv < 0"
  shows "cur \<le> ed \<Longrightarrow> dt_min \<le> cur \<Longrightarrow> slots_loop sd ed iv cur acc = Some (Inl OverflowError)"
proof (induction "nat (cur - dt_min)" arbitrary: cur acc rule: less_induct)
  case less
  show ?case
  proof (cases "advance cur iv")
    case (Inl e)
    then show ?thesis using less.prems advance_Inl[OF Inl] by (subst slots_loop.simps) simp
  next
    case (Inr nxt)
    then have nxt: "nxt = cur + iv" "dt_min \<le> nxt" using advance_Inr by blast+
    with assms less.prems have "nat (nxt - dt_min) < nat (cur - dt_min)" "nxt \<le> ed" by simp_all
    from less.hyps[OF this(1) this(2) nxt(2)]
    show ?thesis using less.prems Inr by (subst slots_loop.simps) simp
  qed
qed

lemma slots_loop_zero_aux:
  assumes "slots_loop sd ed iv cur acc = Some r"
  shows "\<not> (iv = 0 \<and> cur \<le> ed \<and> dt_min \<le> cur \<and> cur \<le> dt_max)"
proof (rule slots_loop.raw_induct
    [where P = "\<lambda>sd ed iv cur acc r. \<not> (iv = 0 \<and> cur \<le> ed \<and> dt_min \<le> cur \<and> cur \<le> dt_max)",
     OF _ assms])
  fix f sd ed iv cur acc r
  assume IH: "\<And>sd ed iv cur acc r. f sd ed iv cur acc = Some r \<Longrightarrow>
      \<not> (iv = 0 \<and> cur \<le> ed \<and> dt_min \<le> cur \<and> cur \<le> dt_max)"
    and body: "(if cur \<le> ed
      then case advance cur iv of Inl e \<Rightarrow> Some (Inl e)
           | Inr nxt \<Rightarrow> f sd ed iv nxt (acc @ [slot_label sd cur])
      else Some (Inr acc)) = Some r"
  show "\<not> (iv = 0 \<and> cur \<le> ed \<and> dt_min \<le> cur \<and> cur \<le> dt_max)"
  proof
    assume h: "iv = 0 \<and> cur \<le> ed \<and> dt_min \<le> cur \<and> cur \<le> dt_max"
    then have "advance cur iv = Inr cur" using advance_zero by simp
    with h body have "f sd ed iv cur (acc @ [slot_label sd cur]) = Some r" by simp
    from IH[OF this] h show False by simp
  qed
qed

lemma slots_loop_zero:
  "cur \<le> ed \<Longrightarrow> dt_min \<le> cur \<Longrightarrow> cur \<le> dt_max \<Longrightarrow> slots_loop sd ed 0 cur acc = None"
  using slots_loop_zero_aux[of sd ed 0 cur acc] by (cases "slots_loop sd ed 0 cur acc") auto

lemma datetime_range: "datetime_2000_1_1 h m = Inr t \<Longrightarrow> 0 \<le> t \<and> t \<le> 1439"
  by (auto simp: datetime_2000_1_1_def split: if_splits)

lemma parse_bounds_range:
  assumes "parse_bounds s e = Inr (sd, ed)"
  shows "0 \<le> sd \<and> sd \<le> 1439 \<and> sd < ed"
  using assms
  by (auto simp: parse_bounds_def split: sum.splits if_splits prod.splits dest!: datetime_range)

subsection \<open>Labels\<close>

lemma digit_chars_inj:
  "0 \<le> a \<Longrightarrow> a < 10 \<Longrightarrow> 0 \<le> b \<Longrightarrow> b < 10 \<Longrightarrow>
     ''0123456789'' ! nat a = ''0123456789'' ! nat b \<Longrightarrow> a = b"
proof -
  assume h: "0 \<le> a" "a < 10" "0 \<le> b" "b < 10"
    and eq: "''0123456789'' ! nat a = ''0123456789'' ! nat b"
  have d: "distinct ''0123456789''" by simp
  have "nat a < length ''0123456789''" "nat b < length ''0123456789''" using h by simp_all
  with d eq have "nat a = nat b" by (simp only: nth_eq_iff_index_eq)
  with h show "a = b" by simp
qed

lemma two_digits_inj:
  assumes "0 \<le> n" "n < 100" "0 \<le> m" "m < 100" "two_digits n = two_digits m"
  shows "n = m"
proof -
  from assms have "n div 10 = m div 10" "n mod 10 = m mod 10"
    by (auto simp: two_digits_def intro!: digit_chars_inj)
  then show ?thesis by (metis mult_div_mod_eq)
qed

lemma two_digits_0: "two_digits 0 = ''00''" by (simp add: two_digits_def)
lemma two_digits_24: "two_digits 24 = ''24''" by (simp add: two_digits_def)

lemma strftime_HM_midnight: "strftime_HM t = ''0000'' \<longleftrightarrow> t mod 1440 = 0"
proof -
  have "strftime_HM t = ''0000'' \<longleftrightarrow>
        two_digits ((t mod 1440) div 60) = two_digits 0 \<and> two_digits (t mod 60) = two_digits 0"
    by (simp add: strftime_HM_def two_digits_def)
  also have "\<dots> \<longleftrightarrow> (t mod 1440) div 60 = 0 \<and> t mod 60 = 0"
    using two_digits_inj[of "(t mod 1440) div 60" 0] two_digits_inj[of "t mod 60" 0]
    by auto
  also have "\<dots> \<longleftrightarrow> t mod 1440 = 0"
  proof -
    have m: "t mod 60 = (t mod 1440) mod 60" by (simp add: mod_mod_cancel)
    have "t mod 1440 = 60 * ((t mod 1440) div 60) + (t mod 1440) mod 60" by simp
    then show ?thesis unfolding m by fastforce
  qed
  finally show ?thesis .
qed

lemma strftime_HM_not_2400: "strftime_HM t \<noteq> ''2400''"
proof
  assume "strftime_HM t = ''2400''"
  then have "two_digits ((t mod 1440) div 60) = two_digits 24"
    by (simp add: strftime_HM_def two_digits_def)
  then have "(t mod 1440) div 60 = 24"
    using two_digits_inj[of "(t mod 1440) div 60" 24] by auto
  moreover have "t mod 1440 = 60 * ((t mod 1440) div 60) + (t mod 1440) mod 60" by simp
  moreover have "0 \<le> (t mod 1440) mod 60" "t mod 1440 < 1440" by simp_all
  ultimately show False by linarith
qed

subsection \<open>Claims about \<open>generate_time_slots\<close>\<close>

text \<open>
  C1 (the code at the claim's input). The claim expects \<open>generate("0530", "2400", 30)\<close> to
  have 38 slots, the last one \<open>"2400"\<close>. The source replaces the end \<open>"2400"\<close> by 23:59
  and then also moves it one day on, so the loop runs until 23:59 of the second day: the
  call returns the 85 slots below, \<open>"2400"\<close> is the 38th of them and the last one is
  \<open>"2330"\<close>.
\<close>

theorem generate_0530_2400_runs_two_days:
  "generate_time_slots ''0530'' ''2400'' 30 =
     Some (Inr
       [''0530'', ''0600'', ''0630'', ''0700'', ''0730'', ''0800'', ''0830'', ''0900'',
        ''0930'', ''1000'', ''1030'', ''1100'', ''1130'', ''1200'', ''1230'', ''1300'',
        ''1330'', ''1400'', ''1430'', ''1500'', ''1530'', ''1600'', ''1630'', ''1700'',
        ''1730'', ''1800'', ''1830'', ''1900'', ''1930'', ''2000'', ''2030'', ''2100'',
        ''2130'', ''2200'', ''2230'', ''2300'', ''2330'', ''2400'', ''0030'', ''0100'',
        ''0130'', ''0200'', ''0230'', ''0300'', ''0330'', ''0400'', ''0430'', ''0500'',
        ''0530'', ''0600'', ''0630'', ''0700'', ''0730'', ''0800'', ''0830'', ''0900'',
        ''0930'', ''1000'', ''1030'', ''1100'', ''1130'', ''1200'', ''1230'', ''1300'',
        ''1330'', ''1400'', ''1430'', ''1500'', ''1530'', ''1600'', ''1630'', ''1700'',
        ''1730'', ''1800'', ''1830'', ''1900'', ''1930'', ''2000'', ''2030'', ''2100'',
        ''2130'', ''2200'', ''2230'', ''2300'', ''2330''])"
  by code_simp

text \<open>
  C2 as stated fails: \<open>generate("2300", "0100", 60)\<close> is not
  \<open>["2300", "0000", "0100"]\<close>.
\<close>

theorem generate_2300_0100_not_0000:
  "generate_time_slots ''2300'' ''0100'' 60 \<noteq> Some (Inr [''2300'', ''0000'', ''0100''])"
  by code_simp

text \<open>
  C2, amended: \<open>generate("2300", "0100", 60)\<close> returns exactly
  \<open>["2300", "2400", "0100"]\<close>: the midnight slot is reached after the start, so line 51
  rewrites it to \<open>"2400"\<close>.
\<close>

theorem generate_2300_0100:
  "generate_time_slots ''2300'' ''0100'' 60 = Some (Inr [''2300'', ''2400'', ''0100''])"
  by code_simp

text \<open>
  C4. In every time axis that \<open>generate_time_slots\<close> returns, the slot of index \<open>i\<close> is
  the label of the instant \<open>start + i * interval\<close>; an instant that falls on 00:00 and is
  strictly later than the start instant is emitted as \<open>"2400"\<close>, every other instant as
  its \<open>HHMM\<close> text. The axis is not empty and its first label is the \<open>HHMM\<close> text of the
  start, never \<open>"2400"\<close>, also when the start is \<open>"0000"\<close>.
\<close>

theorem midnight_label_rule:
  assumes "parse_bounds start_time end_time = Inr (start_dt, end_dt)"
    and "generate_time_slots start_time end_time interval_minutes = Some (Inr slots)"
  shows "slots \<noteq> [] \<and> slots ! 0 = strftime_HM start_dt \<and> slots ! 0 \<noteq> ''2400'' \<and>
         (\<forall>i < length slots.
            slots ! i =
              (if (start_dt + int i * interval_minutes) mod 1440 = 0
                  \<and> start_dt < start_dt + int i * interval_minutes
               then ''2400'' else strftime_HM (start_dt + int i * interval_minutes)))"
proof -
  from assms have loop: "slots_loop start_dt end_dt interval_minutes start_dt [] = Some (Inr slots)"
    by (simp add: generate_time_slots_def)
  have le: "start_dt \<le> end_dt" using parse_bounds_range[OF assms(1)] by simp
  from slots_loop_result[OF loop] le obtain n where
    n: "slots = map (\<lambda>i. slot_label start_dt (start_dt + int i * interval_minutes)) [0..<n]"
    and pos: "0 < n" by auto
  have all: "\<forall>i < length slots.
            slots ! i =
              (if (start_dt + int i * interval_minutes) mod 1440 = 0
                  \<and> start_dt < start_dt + int i * interval_minutes
               then ''2400'' else strftime_HM (start_dt + int i * interval_minutes))"
    by (simp add: n slot_label_def strftime_HM_midnight)
  have ne: "slots \<noteq> []" using n pos by simp
  then have "0 < length slots" by simp
  with all have first: "slots ! 0 = strftime_HM start_dt" by fastforce
  show ?thesis using ne first all strftime_HM_not_2400 by simp
qed

text \<open>The rule at \<open>generate("2300", "0100", 60)\<close>.\<close>

theorem midnight_label_rule_witness:
  "parse_bounds ''2300'' ''0100'' = Inr (1380, 1500) \<and>
   generate_time_slots ''2300'' ''0100'' 60 = Some (Inr [''2300'', ''2400'', ''0100'']) \<and>
   [''2300'', ''2400'', ''0100''] ! 0 = strftime_HM 1380 \<and>
   [''2300'', ''2400'', ''0100''] ! 1 = ''2400''"
proof -
  have h1: "parse_bounds ''2300'' ''0100'' = Inr (1380, 1500)" by code_simp
  have h2: "generate_time_slots ''2300'' ''0100'' 60 = Some (Inr [''2300'', ''2400'', ''0100''])"
    by code_simp
  from midnight_label_rule[OF h1 h2]
  have "[''2300'', ''2400'', ''0100''] ! 0 = strftime_HM 1380"
    and "\<forall>i < length [''2300'', ''2400'', ''0100''].
            [''2300'', ''2400'', ''0100''] ! i =
              (if (1380 + int i * 60) mod 1440 = 0 \<and> (1380::int) < 1380 + int i * 60
               then ''2400'' else strftime_HM (1380 + int i * 60))"
    by blast+
  then show ?thesis using h1 h2 by simp
qed

text \<open>
  C10 as stated fails for a negative interval: the call below does not run forever, its
  first \<open>current += timedelta(...)\<close> leaves the range of \<open>datetime\<close> and raises
  \<open>OverflowError\<close>.
\<close>

theorem generate_negative_interval_raises:
  "generate_time_slots ''0000'' ''0100'' (- 2000000000) = Some (Inl OverflowError)"
  by code_simp

text \<open>
  C10, amended. With an interval of at least 1 the generator terminates for every pair of
  strings (it returns the axis, or raises on text that is not a time, or raises
  \<open>OverflowError\<close> when a step leaves the range of \<open>datetime\<close>). For start and end texts
  that parse as times: with the interval 0 the call never returns, and with a negative
  interval the loop condition never becomes false and the call ends with \<open>OverflowError\<close>,
  when the running instant falls below the least \<open>datetime\<close>.
\<close>

theorem generate_termination:
  "(1 \<le> interval_minutes \<longrightarrow>
      (\<exists>r. generate_time_slots start_time end_time interval_minutes = Some r)) \<and>
   (parse_bounds start_time end_time = Inr bounds \<longrightarrow>
      (interval_minutes = 0 \<longrightarrow>
         generate_time_slots start_time end_time interval_minutes = None) \<and>
      (interval_minutes < 0 \<longrightarrow>
         generate_time_slots start_time end_time interval_minutes = Some (Inl OverflowError)))"
proof (intro conjI impI)
  assume "1 \<le> interval_minutes"
  then show "\<exists>r. generate_time_slots start_time end_time interval_minutes = Some r"
    using slots_loop_terminates
    by (auto simp: generate_time_slots_def split: sum.splits prod.splits)
next
  assume pb: "parse_bounds start_time end_time = Inr bounds" and z: "interval_minutes = 0"
  obtain sd ed where b: "bounds = (sd, ed)" by (cases bounds)
  from parse_bounds_range[OF pb[unfolded b]] have "sd \<le> ed" "dt_min \<le> sd" "sd \<le> dt_max"
    by (simp_all add: dt_min_def dt_max_def)
  from slots_loop_zero[OF this] show "generate_time_slots start_time end_time interval_minutes = None"
    by (simp add: generate_time_slots_def pb b z)
next
  assume pb: "parse_bounds start_time end_time = Inr bounds" and neg: "interval_minutes < 0"
  obtain sd ed where b: "bounds = (sd, ed)" by (cases bounds)
  from parse_bounds_range[OF pb[unfolded b]] have "sd \<le> ed" "dt_min \<le> sd"
    by (simp_all add: dt_min_def)
  from slots_loop_negative[OF neg this]
  show "generate_time_slots start_time end_time interval_minutes = Some (Inl OverflowError)"
    by (simp add: generate_time_slots_def pb b)
qed

text \<open>The three cases at \<open>"0530"\<close>, \<open>"0630"\<close> and the intervals 30, 0 and -1.\<close>

theorem generate_termination_witness:
  "(\<exists>r. generate_time_slots ''0530'' ''0630'' 30 = Some r) \<and>
   parse_bounds ''0530'' ''0630'' = Inr (330, 390) \<and>
   generate_time_slots ''0530'' ''0630'' 0 = None \<and>
   generate_time_slots ''0530'' ''0630'' (- 1) = Some (Inl OverflowError)"
proof -
  have pb: "parse_bounds ''0530'' ''0630'' = Inr (330, 390)" by code_simp
  show ?thesis
    using generate_termination[of 30 "''0530''" "''0630''" "(330, 390)"]
      generate_termination[of 0 "''0530''" "''0630''" "(330, 390)"]
      generate_termination[of "- 1" "''0530''" "''0630''" "(330, 390)"] pb
    by simp
qed

section \<open>The group store\<close>


lemma add_group_present: "map_of (groups b) n \<noteq> None \<Longrightarrow> add_group n acts locs b = b"
  by (auto simp: add_group_def split: prod.splits)

lemma add_group_dom:
  "fst ` set (groups (add_group n acts locs b)) = insert n (fst ` set (groups b))"
proof (cases "map_of (groups b) n")
  case None
  then show ?thesis by (simp add: add_group_def AList.dom_update split: prod.splits)
next
  case (Some g)
  then have "n \<in> fst ` set (groups b)" by (metis map_of_eq_None_iff option.distinct(1))
  with Some show ?thesis by (auto simp: add_group_def split: prod.splits)
qed

lemma add_activity_dom:
  "fst ` set (groups (add_activity n ts act loc b)) = insert n (fst ` set (groups b))"
proof -
  define b1 where "b1 = (if map_of (groups b) n = None then add_group n None None b else b)"
  have d1: "fst ` set (groups b1) = insert n (fst ` set (groups b))"
  proof (cases "map_of (groups b) n")
    case None
    then show ?thesis by (simp add: b1_def add_group_dom)
  next
    case (Some g)
    then have "n \<in> fst ` set (groups b)" by (metis map_of_eq_None_iff option.distinct(1))
    with Some show ?thesis by (auto simp: b1_def)
  qed
  then have "map_of (groups b1) n \<noteq> None" by (simp add: map_of_eq_None_iff)
  then obtain g where g: "map_of (groups b1) n = Some g" by blast
  have "fst ` set (groups (add_activity n ts act loc b)) = insert n (fst ` set (groups b1))"
    unfolding add_activity_def b1_def[symmetric] Let_def
    by (simp add: g AList.dom_update)
  with d1 show ?thesis by simp
qed

lemma present_iff: "map_of al n \<noteq> None \<longleftrightarrow> n \<in> fst ` set al"
  by (simp add: map_of_eq_None_iff)

lemma add_activities_keep:
  "n \<in> fst ` set (groups b) \<Longrightarrow>
   n \<in> fst ` set (groups (foldl (\<lambda>b (m, ts, act, loc). add_activity m ts act loc b) b calls))"
proof (induction calls arbitrary: b)
  case Nil
  then show ?case by simp
next
  case (Cons c calls)
  obtain m ts act loc where c: "c = (m, ts, act, loc)" by (cases c)
  have "n \<in> fst ` set (groups (add_activity m ts act loc b))"
    using Cons.prems by (simp add: add_activity_dom)
  from Cons.IH[OF this] show ?case by (simp add: c)
qed

text \<open>
  C8. A call of \<open>add_group\<close> under a name that the store holds returns the builder as it
  is: the group's hierarchy, activities and locations stay. In particular, after
  \<open>add_group(name)\<close> and any sequence of \<open>add_activity\<close> calls (for this or other groups),
  a second \<open>add_group(name)\<close>, with whatever activities and locations, changes nothing.
\<close>

theorem add_group_twice_keeps:
  "(map_of (groups b) n \<noteq> None \<longrightarrow> add_group n acts locs b = b) \<and>
   add_group n acts2 locs2
     (foldl (\<lambda>b (m, ts, act, loc). add_activity m ts act loc b) (add_group n acts1 locs1 b) calls)
   = foldl (\<lambda>b (m, ts, act, loc). add_activity m ts act loc b) (add_group n acts1 locs1 b) calls"
proof
  show "map_of (groups b) n \<noteq> None \<longrightarrow> add_group n acts locs b = b"
    using add_group_present by blast
next
  have "n \<in> fst ` set (groups (add_group n acts1 locs1 b))" by (simp add: add_group_dom)
  from add_activities_keep[OF this, of calls]
  have "map_of (groups (foldl (\<lambda>b (m, ts, act, loc). add_activity m ts act loc b)
          (add_group n acts1 locs1 b) calls)) n \<noteq> None"
    unfolding present_iff .
  then show "add_group n acts2 locs2
     (foldl (\<lambda>b (m, ts, act, loc). add_activity m ts act loc b) (add_group n acts1 locs1 b) calls)
   = foldl (\<lambda>b (m, ts, act, loc). add_activity m ts act loc b) (add_group n acts1 locs1 b) calls"
    by (rule add_group_present)
qed

text \<open>
  The two parts at the group \<open>"G"\<close>: after an activity at \<open>"0630"\<close>, a second
  \<open>add_group\<close> leaves the builder as it is and the activity in place.
\<close>

theorem add_group_twice_keeps_witness:
  "map_of (groups (add_activity ''G'' ''0630'' ''SAP CUB'' [] (add_group ''G'' None None init))) ''G'' \<noteq> None \<and>
   add_group ''G'' (Some []) (Some [''Tent'']) (add_activity ''G'' ''0630'' ''SAP CUB'' [] (add_group ''G'' None None init))
     = add_activity ''G'' ''0630'' ''SAP CUB'' [] (add_group ''G'' None None init) \<and>
   map_option activities
     (map_of (groups (add_group ''G'' None None (add_activity ''G'' ''0630'' ''SAP CUB'' [] (add_group ''G'' None None init)))) ''G'')
     = Some [(''0630'', ''SAP CUB'')]"
proof -
  have h: "map_of (groups (add_activity ''G'' ''0630'' ''SAP CUB'' [] (add_group ''G'' None None init))) ''G'' \<noteq> None"
    by code_simp
  have a: "map_option activities
     (map_of (groups (add_activity ''G'' ''0630'' ''SAP CUB'' [] (add_group ''G'' None None init))) ''G'')
     = Some [(''0630'', ''SAP CUB'')]" by code_simp
  from add_group_twice_keeps[where b = "add_activity ''G'' ''0630'' ''SAP CUB'' [] (add_group ''G'' None None init)"
      and n = "''G''"] h
  have "\<And>acts locs. add_group ''G'' acts locs (add_activity ''G'' ''0630'' ''SAP CUB'' [] (add_group ''G'' None None init))
     = add_activity ''G'' ''0630'' ''SAP CUB'' [] (add_group ''G'' None None init)" by blast
  then show ?thesis using h a by simp
qed

text \<open>
  C5 (the code at a failing input). \<open>add_activity\<close> appends a location only when the
  group's list does not hold it, but \<open>add_group\<close> stores the list it is given as it is:
  \<open>add_group("G", locations=["Tent", "Tent"])\<close> leaves the group with a list that holds
  \<open>"Tent"\<close> twice.
\<close>

theorem add_group_keeps_duplicates:
  "map_option locations (map_of (groups (add_group ''G'' None (Some [''Tent'', ''Tent'']) init)) ''G'')
     = Some [''Tent'', ''Tent'']"
  by code_simp

section \<open>The table\<close>

subsection \<open>Keys and the number of rows\<close>

lemma hierarchy_groups_fold:
  "distinct (map fst acc) \<Longrightarrow>
   distinct (map fst (foldl (\<lambda>hg item. AList.update (group_key item) (snd item) hg) acc xs)) \<and>
   fst ` set (foldl (\<lambda>hg item. AList.update (group_key item) (snd item) hg) acc xs)
     = fst ` set acc \<union> group_key ` set xs"
proof (induction xs arbitrary: acc)
  case Nil
  then show ?case by simp
next
  case (Cons x xs)
  have d: "distinct (map fst (AList.update (group_key x) (snd x) acc))"
    using Cons.prems by (rule AList.distinct_update)
  from Cons.IH[OF d] show ?case by (auto simp: AList.dom_update)
qed

lemma hierarchy_groups_keys:
  "distinct (map fst (hierarchy_groups b))"
  "fst ` set (hierarchy_groups b) = group_key ` set (groups b)"
  using hierarchy_groups_fold[of "[]" "groups b"] by (simp_all add: hierarchy_groups_def)




subsection \<open>The invariant of reachable builders\<close>






lemma reachable_axis_builder: "reachable axis_builder"
proof -
  have "set_time_period ''0530'' ''0600'' 30 init = Some (Inr axis_builder)" by code_simp
  with r_init show ?thesis by (rule r_set_time_period)
qed



lemma reachable_deep_third: "reachable deep_third"
  unfolding deep_third_def by (intro r_add_group reachable_axis_builder)




subsection \<open>The leading cells of a row\<close>

lemma group_key_nonempty: "group_key item \<noteq> []"
  by (cases item) (simp add: group_key_def)

lemma sorted_groups_keys_nonempty: "(k, g) \<in> set (sorted_groups b) \<Longrightarrow> k \<noteq> []"
proof -
  assume "(k, g) \<in> set (sorted_groups b)"
  then have "k \<in> fst ` set (hierarchy_groups b)" by (force simp: sorted_groups_def)
  then show "k \<noteq> []" using hierarchy_groups_keys(2)[of b] group_key_nonempty by auto
qed

lemma row_prefix_length: "length (fst (row_prefix k leaf ct cs)) = 3"
  by (simp add: row_prefix_def)

lemma add_locations_length: "length (add_locations locs row) = length row"
  by (simp add: add_locations_def)

lemma add_locations_nth: "i < 2 \<Longrightarrow> add_locations locs row ! i = row ! i"
  by (simp add: add_locations_def)

lemma row_cell:
  assumes "i < 2"
  shows "build_rows slots ct cs ((k, g) # rest) ! 0 ! i = fst (row_prefix k (leaf_name g) ct cs) ! i"
proof -
  obtain row ct' cs' where p: "row_prefix k (leaf_name g) ct cs = (row, ct', cs')"
    by (cases "row_prefix k (leaf_name g) ct cs")
  have "length row = 3" using row_prefix_length[of k "leaf_name g" ct cs] by (simp add: p)
  then show ?thesis using assms
    by (simp add: p nth_append add_locations_length add_locations_nth)
qed

lemma row_cell0:
  "build_rows slots ct cs ((k, g) # rest) ! 0 ! 0 = fst (row_prefix k (leaf_name g) ct cs) ! 0"
  by (rule row_cell) simp

lemma row_cell1:
  "build_rows slots ct cs ((k, g) # rest) ! 0 ! 1 = fst (row_prefix k (leaf_name g) ct cs) ! 1"
  by (rule row_cell) simp

lemma build_rows_nth1:
  "build_rows slots ct cs ((k, g) # rest) ! 1 =
   build_rows slots (fst (snd (row_prefix k (leaf_name g) ct cs)))
     (snd (snd (row_prefix k (leaf_name g) ct cs))) rest ! 0"
  by (simp split: prod.splits)

lemma build_rows_nth2:
  "build_rows slots ct cs ((k, g) # rest) ! 2 =
   build_rows slots (fst (snd (row_prefix k (leaf_name g) ct cs)))
     (snd (snd (row_prefix k (leaf_name g) ct cs))) rest ! 1"
  by (simp split: prod.splits)

lemma build_rows_tail:
  "build_rows slots ct cs ((k, g) # rest) ! Suc j =
   build_rows slots (fst (snd (row_prefix k (leaf_name g) ct cs)))
     (snd (snd (row_prefix k (leaf_name g) ct cs))) rest ! j"
  by (simp split: prod.splits)

lemma build_rows_skip:
  "\<exists>ct' cs'. \<forall>j. build_rows slots ct cs (pre @ rest) ! (length pre + j)
                    = build_rows slots ct' cs' rest ! j"
proof (induction pre arbitrary: ct cs)
  case Nil
  show ?case by auto
next
  case (Cons x pre)
  obtain k g where x: "x = (k, g)" by (cases x)
  from Cons.IH[of "fst (snd (row_prefix k (leaf_name g) ct cs))"
      "snd (snd (row_prefix k (leaf_name g) ct cs))"]
  show ?case unfolding x by (simp only: append_Cons length_Cons add_Suc build_rows_tail)
qed

lemma depth3_state:
  "length k = 3 \<Longrightarrow> snd (row_prefix k leaf ct cs) = (Some (k ! 0), Some (k ! 1))"
  by (simp add: row_prefix_def)

lemma depth3_collapsed:
  "length k = 3 \<Longrightarrow> fst (row_prefix k leaf (Some (k ! 0)) (Some (k ! 1))) ! 0 = [] \<and>
                     fst (row_prefix k leaf (Some (k ! 0)) (Some (k ! 1))) ! 1 = []"
  by (simp add: row_prefix_def)

lemma new_top_shown:
  "k \<noteq> [] \<Longrightarrow> length k \<le> 3 \<Longrightarrow> Some (k ! 0) \<noteq> ct \<Longrightarrow> fst (row_prefix k leaf ct cs) ! 0 = k ! 0"
proof -
  assume "k \<noteq> []" "length k \<le> 3" "Some (k ! 0) \<noteq> ct"
  moreover from this have "0 < length k" by simp
  then have "length k = 1 \<or> length k = 2 \<or> length k = 3"
    using \<open>length k \<le> 3\<close> by linarith
  ultimately show ?thesis by (auto simp: row_prefix_def)
qed

lemma deep_top_empty:
  "3 < length k \<Longrightarrow> fst (row_prefix k leaf ct cs) ! 0 = []"
  by (simp add: row_prefix_def)

lemma pair_rows:
  assumes "length k1 = 3" "length k2 = 3" "k1 ! 0 = k2 ! 0" "k1 ! 1 = k2 ! 1"
  shows "build_rows slots ct cs ((k1, g1) # (k2, g2) # rest) ! 1 ! 0 = []"
    and "build_rows slots ct cs ((k1, g1) # (k2, g2) # rest) ! 1 ! 1 = []"
    and "k3 \<noteq> [] \<Longrightarrow> length k3 \<le> 3 \<Longrightarrow> k3 ! 0 \<noteq> k2 ! 0 \<Longrightarrow>
         build_rows slots ct cs ((k1, g1) # (k2, g2) # (k3, g3) # post) ! 2 ! 0 = k3 ! 0"
    and "3 < length k3 \<Longrightarrow>
         build_rows slots ct cs ((k1, g1) # (k2, g2) # (k3, g3) # post) ! 2 ! 0 = []"
proof -
  have s1: "snd (row_prefix k1 (leaf_name g1) ct cs) = (Some (k2 ! 0), Some (k2 ! 1))"
    using depth3_state[OF assms(1)] assms(3,4) by simp
  have s2: "snd (row_prefix k2 (leaf_name g2) (Some (k2 ! 0)) (Some (k2 ! 1)))
              = (Some (k2 ! 0), Some (k2 ! 1))"
    using depth3_state[OF assms(2)] by simp
  show "build_rows slots ct cs ((k1, g1) # (k2, g2) # rest) ! 1 ! 0 = []"
    unfolding build_rows_nth1 s1 fst_conv snd_conv row_cell0
    using depth3_collapsed[OF assms(2)] by blast
  show "build_rows slots ct cs ((k1, g1) # (k2, g2) # rest) ! 1 ! 1 = []"
    unfolding build_rows_nth1 s1 fst_conv snd_conv row_cell1
    using depth3_collapsed[OF assms(2)] by blast
  show "build_rows slots ct cs ((k1, g1) # (k2, g2) # (k3, g3) # post) ! 2 ! 0 = k3 ! 0"
    if "k3 \<noteq> []" "length k3 \<le> 3" "k3 ! 0 \<noteq> k2 ! 0"
    unfolding build_rows_nth2 build_rows_nth1 s1 s2 fst_conv snd_conv row_cell0
    using new_top_shown[OF that(1,2), of "Some (k2 ! 0)"] that(3) by simp
  show "build_rows slots ct cs ((k1, g1) # (k2, g2) # (k3, g3) # post) ! 2 ! 0 = []"
    if "3 < length k3"
    unfolding build_rows_nth2 build_rows_nth1 s1 s2 fst_conv snd_conv row_cell0
    using deep_top_empty[OF that] by simp
qed

text \<open>
  C7 as stated fails: in \<open>deep_third\<close> the group sorted after the two depth-3 groups
  under \<open>"A"\<close>, \<open>"B"\<close> has the different top-level label \<open>"E"\<close>, but its key has four
  levels, and line 151 gives its row an empty column 0.
\<close>

theorem deep_third_empty_top:
  "sorted_groups deep_third =
     [([''A'', ''B'', ''C''], \<lparr>hierarchy = [''A'', ''B''], leaf_name = ''C'', activities = [], locations = []\<rparr>),
      ([''A'', ''B'', ''D''], \<lparr>hierarchy = [''A'', ''B''], leaf_name = ''D'', activities = [], locations = []\<rparr>),
      ([''E'', ''F'', ''G'', ''H''], \<lparr>hierarchy = [''E'', ''F'', ''G''], leaf_name = ''H'', activities = [], locations = []\<rparr>)] \<and>
   snd (build_schedule_structure deep_third) =
     Inr [[[], [], [], ''0530'', ''0600''], [[], [], [], [], []],
          [''A'', ''B'', ''C'', [], []], [[], [], ''D'', [], []], [[], [], ''H'', [], []]]"
  by code_simp

text \<open>
  C7, amended. When two groups with keys of depth 3 are adjacent in sort order and share
  their top-level and second-level labels, the row of the second has empty strings in
  columns 0 and 1. The group sorted next, when its top-level label differs, has that label
  in column 0 if its key has at most three levels, and an empty column 0 if its key has
  more than three. Row \<open>i\<close> of the sorted groups is row \<open>i + 2\<close> of the table.
\<close>

theorem span_collapsing:
  assumes "snd (build_schedule_structure b) = Inr tbl"
    and "sorted_groups b = pre @ (k1, g1) # (k2, g2) # rest"
    and "length k1 = 3" and "length k2 = 3" and "k1 ! 0 = k2 ! 0" and "k1 ! 1 = k2 ! 1"
  shows "tbl ! (length pre + 3) ! 0 = [] \<and> tbl ! (length pre + 3) ! 1 = [] \<and>
         (\<forall>k3 g3 post. rest = (k3, g3) # post \<and> k3 ! 0 \<noteq> k2 ! 0 \<longrightarrow>
            (length k3 \<le> 3 \<longrightarrow> tbl ! (length pre + 4) ! 0 = k3 ! 0) \<and>
            (3 < length k3 \<longrightarrow> tbl ! (length pre + 4) ! 0 = []))"
proof -
  let ?pair = "(k1, g1) # (k2, g2) # rest"
  from assms(1) have tbl: "tbl = ([[], [], []] @ time_slots b)
        # ([[], [], []] @ replicate (length (time_slots b)) [])
        # build_rows (time_slots b) None None (pre @ ?pair)"
    by (auto simp: build_schedule_structure_def assms(2) split: if_splits)
  obtain ct cs where skip: "\<And>j. build_rows (time_slots b) None None (pre @ ?pair) ! (length pre + j)
      = build_rows (time_slots b) ct cs ?pair ! j"
    using build_rows_skip[of "time_slots b" None None pre ?pair] by blast
  have r3: "tbl ! (length pre + 3) = build_rows (time_slots b) ct cs ?pair ! 1"
    using skip[of 1] by (simp add: tbl numeral_3_eq_3)
  have r4: "tbl ! (length pre + 4) = build_rows (time_slots b) ct cs ?pair ! 2"
    using skip[of 2] by (simp add: tbl eval_nat_numeral)
  have "(k3, g3) \<in> set (sorted_groups b)" if "rest = (k3, g3) # post" for k3 g3 post
    using that by (simp add: assms(2))
  then have ne: "k3 \<noteq> []" if "rest = (k3, g3) # post" for k3 g3 post
    using that sorted_groups_keys_nonempty by blast
  show ?thesis
    unfolding r3 r4
    using pair_rows(1,2)[OF assms(3-6), of "time_slots b" ct cs g1 g2 rest]
      pair_rows(3,4)[OF assms(3-6), of _ "time_slots b" ct cs g1 g2] ne
    by blast
qed

text \<open>
  In \<open>three_groups\<close> the rows of \<open>"A - B - C"\<close>, \<open>"A - B - D"\<close> and \<open>"E - F - G"\<close> are
  rows 2, 3 and 4 of the table.
\<close>

theorem span_collapsing_witness:
  "snd (build_schedule_structure three_groups) =
     Inr [[[], [], [], ''0530'', ''0600''], [[], [], [], [], []],
          [''A'', ''B'', ''C'', [], []], [[], [], ''D (Tent)'', [], ''Lunch''],
          [''E'', ''F'', ''G'', [], []]] \<and>
   map fst (sorted_groups three_groups) = [[''A'', ''B'', ''C''], [''A'', ''B'', ''D''], [''E'', ''F'', ''G'']] \<and>
   [[], [], ''D (Tent)'', [], ''Lunch''] ! 0 = [] \<and>
   [[], [], ''D (Tent)'', [], ''Lunch''] ! 1 = [] \<and>
   [''E'', ''F'', ''G'', [], []] ! 0 = [''E'', ''F'', ''G''] ! 0"
proof -
  let ?g1 = "\<lparr>hierarchy = [''A'', ''B''], leaf_name = ''C'', activities = [], locations = []\<rparr>"
  let ?g2 = "\<lparr>hierarchy = [''A'', ''B''], leaf_name = ''D'',
              activities = [(''0600'', ''Lunch'')], locations = [''Tent'']\<rparr>"
  let ?g3 = "\<lparr>hierarchy = [''E'', ''F''], leaf_name = ''G'', activities = [], locations = []\<rparr>"
  let ?tbl = "[[[], [], [], ''0530'', ''0600''], [[], [], [], [], []],
          [''A'', ''B'', ''C'', [], []], [[], [], ''D (Tent)'', [], ''Lunch''],
          [''E'', ''F'', ''G'', [], []]]"
  have t: "snd (build_schedule_structure three_groups) = Inr ?tbl" by code_simp
  have s: "sorted_groups three_groups =
      [] @ ([''A'', ''B'', ''C''], ?g1) # ([''A'', ''B'', ''D''], ?g2) # [([''E'', ''F'', ''G''], ?g3)]"
    by code_simp
  have m: "map fst (sorted_groups three_groups) = [[''A'', ''B'', ''C''], [''A'', ''B'', ''D''], [''E'', ''F'', ''G'']]"
    by (simp add: s)
  from span_collapsing[OF t s]
  have "?tbl ! (length ([] :: (string list \<times> group) list) + 3) ! 0 = []"
    and "?tbl ! (length ([] :: (string list \<times> group) list) + 3) ! 1 = []"
    and "?tbl ! (length ([] :: (string list \<times> group) list) + 4) ! 0 = [''E'', ''F'', ''G''] ! 0"
    by simp_all
  then show ?thesis using t m by simp
qed

subsection \<open>The precondition and the frame\<close>

text \<open>
  C6. \<open>build_schedule_structure\<close> raises (the \<open>ValueError\<close> of line 97, the spec's
  precondition error) if and only if the time-slot list is empty; the builder, so the store
  and the time axis, is then as it was; with a non-empty time axis the call returns a table.
\<close>

theorem build_raises_iff_no_axis:
  "(snd (build_schedule_structure b) = Inl ValueError \<longleftrightarrow> time_slots b = []) \<and>
   (snd (build_schedule_structure b) = Inl ValueError \<longrightarrow> fst (build_schedule_structure b) = b) \<and>
   (time_slots b \<noteq> [] \<longrightarrow> (\<exists>tbl. snd (build_schedule_structure b) = Inr tbl))"
  by (simp add: build_schedule_structure_def)

text \<open>
  Both directions: a new builder, and \<open>three_groups\<close> with its two time slots.
\<close>

theorem build_raises_iff_no_axis_witness:
  "time_slots init = [] \<and> build_schedule_structure init = (init, Inl ValueError) \<and>
   time_slots three_groups \<noteq> [] \<and> (\<exists>tbl. snd (build_schedule_structure three_groups) = Inr tbl)"
proof -
  have a: "time_slots init = []" by (simp add: init_def)
  have b: "time_slots three_groups \<noteq> []" by code_simp
  show ?thesis
    using build_raises_iff_no_axis[of init] build_raises_iff_no_axis[of three_groups] a b
    by (simp add: prod_eq_iff)
qed

text \<open>
  C9. \<open>build_schedule_structure\<close> leaves the builder, so the time-slot list and the
  group store, as it was, and a second build from the state that the first one leaves
  returns the same result.
\<close>

theorem build_is_pure_read:
  "fst (build_schedule_structure b) = b \<and>
   time_slots (fst (build_schedule_structure b)) = time_slots b \<and>
   groups (fst (build_schedule_structure b)) = groups b \<and>
   snd (build_schedule_structure (fst (build_schedule_structure b))) = snd (build_schedule_structure b)"
  by (simp add: build_schedule_structure_def)

end
